theory Spec2Isabelle
  imports Complex_Main
begin

section \<open>Strings and JavaScript values\<close>

text \<open>
  The component \<^verbatim>\<open>ChatWithDocs\<close> (\<^verbatim>\<open>src/components/ChatWithDocs.tsx\<close>) works on JavaScript
  strings, which are sequences of UTF-16 code units. A string is modelled as the list of
  its code units, so that \<^verbatim>\<open>trim\<close>, \<^verbatim>\<open>length\<close> and equality count what the source counts.
  \<open>lit\<close> embeds an ASCII literal of the source.
\<close>

type_synonym js_string = "nat list"

definition lit :: "string \<Rightarrow> js_string" where
  "lit cs = map of_char cs"

text \<open>The four pictographs of the message templates, as UTF-16 code units.\<close>

definition page_facing_up :: js_string where
  "page_facing_up = [0xD83D, 0xDCC4]"

definition clipboard :: js_string where
  "clipboard = [0xD83D, 0xDCCB]"

definition cross_mark :: js_string where
  "cross_mark = [0x274C]"

definition wastebasket :: js_string where
  "wastebasket = [0xD83D, 0xDDD1, 0xFE0F]"

text \<open>
  \<^verbatim>\<open>String.prototype.trim\<close> removes ECMAScript white space and line terminators from both
  ends: TAB, LF, VT, FF, CR, SP, NBSP, the space separators of Unicode, LS, PS and the
  byte order mark.
\<close>

definition isWhiteSpace :: "nat \<Rightarrow> bool" where
  "isWhiteSpace c \<longleftrightarrow>
     c = 0x09 \<or> c = 0x0A \<or> c = 0x0B \<or> c = 0x0C \<or> c = 0x0D \<or> c = 0x20 \<or> c = 0xA0 \<or>
     c = 0x1680 \<or> (0x2000 \<le> c \<and> c \<le> 0x200A) \<or> c = 0x2028 \<or> c = 0x2029 \<or>
     c = 0x202F \<or> c = 0x205F \<or> c = 0x3000 \<or> c = 0xFEFF"

definition trim :: "js_string \<Rightarrow> js_string" where
  "trim t = rev (dropWhile isWhiteSpace (rev (dropWhile isWhiteSpace t)))"

text \<open>\<^verbatim>\<open>Array.prototype.join\<close> and the decimal rendering of a length in a template literal.\<close>

fun join :: "js_string \<Rightarrow> js_string list \<Rightarrow> js_string" where
  "join sep [] = []"
| "join sep [x] = x"
| "join sep (x # y # ys) = x @ sep @ join sep (y # ys)"

fun show_nat :: "nat \<Rightarrow> js_string" where
  "show_nat n = (if n < 10 then [48 + n] else show_nat (n div 10) @ [48 + n mod 10])"

declare show_nat.simps [simp del]

text \<open>
  An optional string field is \<open>None\<close> when it is \<^verbatim>\<open>undefined\<close>. Such a value is falsy when
  it is absent or the empty string; \<^verbatim>\<open>a || b\<close> is \<open>a\<close> when \<open>a\<close> is truthy and \<open>b\<close> otherwise.
\<close>

definition truthy :: "js_string option \<Rightarrow> bool" where
  "truthy v = (case v of None \<Rightarrow> False | Some t \<Rightarrow> t \<noteq> [])"

definition or_else :: "js_string option \<Rightarrow> js_string option \<Rightarrow> js_string option" where
  "or_else a b = (if truthy a then a else b)"

section \<open>Data model\<close>

text \<open>
  The interfaces \<^verbatim>\<open>Document\<close> and \<^verbatim>\<open>Message\<close>, field by field. Field names carry a prefix
  (\<open>d_\<close>, \<open>m_\<close>, \<open>src_\<close>, \<open>f_\<close>) because several interfaces share \<^verbatim>\<open>id\<close>, \<^verbatim>\<open>name\<close>,
  \<^verbatim>\<open>filename\<close>, \<^verbatim>\<open>size\<close> and \<^verbatim>\<open>type\<close>.
\<close>

record document =
  d_id :: "js_string option"
  d_doc_id :: "js_string option"
  d_name :: "js_string option"
  d_filename :: "js_string option"
  d_size :: "nat option"
  d_type :: "js_string option"
  d_status :: "js_string option"
  d_total_chunks :: "nat option"

datatype msg_type = User | AI | System

record source_citation =
  src_filename :: js_string
  src_text :: js_string
  src_similarity :: "real option"

record message =
  m_id :: nat
  m_type :: msg_type
  m_content :: js_string
  m_sources :: "source_citation list option"

text \<open>What the handlers read of a browser \<^verbatim>\<open>File\<close>; the payload itself is never inspected.\<close>

record js_file =
  f_name :: js_string
  f_size :: nat
  f_type :: js_string

subsection \<open>Requests, responses and errors\<close>

record query_body =
  user_id :: js_string
  query :: js_string
  doc_ids :: "js_string list"
  top_k :: nat

text \<open>
  The four calls of the component: \<^verbatim>\<open>axios.get(.../upload/documents/${userId})\<close>,
  \<^verbatim>\<open>axios.post(.../upload, formData)\<close> with the fields \<^verbatim>\<open>file\<close> and \<^verbatim>\<open>user_id\<close>,
  \<^verbatim>\<open>axios.post(.../query, body)\<close> and \<^verbatim>\<open>axios.delete(.../upload/documents/${userId})\<close>.
\<close>

datatype request =
    Get_documents js_string
  | Post_upload js_file js_string
  | Post_query query_body
  | Delete_documents js_string

text \<open>
  A rejected request, as the \<^verbatim>\<open>catch\<close> blocks read it: \<^verbatim>\<open>error.response?.data?.detail\<close>
  (absent at any level is \<open>None\<close>) and \<^verbatim>\<open>error.message\<close>.
\<close>

record axios_error =
  detail :: "js_string option"
  message :: js_string

definition error_text :: "axios_error \<Rightarrow> js_string" where
  "error_text e = (case or_else (detail e) (Some (message e)) of Some t \<Rightarrow> t | None \<Rightarrow> [])"

record list_response =
  documents :: "document list option"

record upload_response =
  filename :: "js_string option"

record query_response =
  answer :: js_string
  sources :: "source_citation list option"

section \<open>Component state and effects\<close>

text \<open>
  The \<^verbatim>\<open>useState\<close> cells of the component, together with two logs of what the component
  did to its environment: \<open>requests\<close>, the HTTP requests issued so far, and \<open>timers\<close>, the
  delays of the \<^verbatim>\<open>setTimeout(loadUserDocuments, delay)\<close> calls made so far.
\<close>

record state =
  messages :: "message list"
  inputMessage :: js_string
  isLoading :: bool
  uploadedDocuments :: "document list"
  isUploading :: bool
  selectedDocuments :: "js_string list"
  userId :: js_string
  requests :: "request list"
  timers :: "nat list"

text \<open>
  A handler is modelled as the list of effects it performs, in program order, computed
  from the state its closure captured. \<open>SetMessages m\<close> is the functional update
  \<^verbatim>\<open>setMessages(prev => [...prev, m])\<close>, the only form the source uses;
  \<open>AppendUploadedDocuments\<close> is \<^verbatim>\<open>setUploadedDocuments(prev => [...prev, ...newFiles])\<close>;
  \<open>ToggleSelectedDocuments\<close> is the functional update of \<^verbatim>\<open>toggleDocumentSelection\<close>.
\<close>

datatype action =
    SetMessages message
  | SetInputMessage js_string
  | SetIsLoading bool
  | SetUploadedDocuments "document list"
  | AppendUploadedDocuments "document list"
  | SetIsUploading bool
  | SetSelectedDocuments "js_string list"
  | ToggleSelectedDocuments js_string
  | Axios request
  | SetTimeout_loadUserDocuments nat

definition toggle :: "js_string \<Rightarrow> js_string list \<Rightarrow> js_string list" where
  "toggle docId prev =
     (if docId \<in> set prev then filter (\<lambda>i. i \<noteq> docId) prev else prev @ [docId])"

fun apply_action :: "action \<Rightarrow> state \<Rightarrow> state" where
  "apply_action (SetMessages m) s = s\<lparr>messages := messages s @ [m]\<rparr>"
| "apply_action (SetInputMessage t) s = s\<lparr>inputMessage := t\<rparr>"
| "apply_action (SetIsLoading b) s = s\<lparr>isLoading := b\<rparr>"
| "apply_action (SetUploadedDocuments ds) s = s\<lparr>uploadedDocuments := ds\<rparr>"
| "apply_action (AppendUploadedDocuments ds) s =
     s\<lparr>uploadedDocuments := uploadedDocuments s @ ds\<rparr>"
| "apply_action (SetIsUploading b) s = s\<lparr>isUploading := b\<rparr>"
| "apply_action (SetSelectedDocuments ids) s = s\<lparr>selectedDocuments := ids\<rparr>"
| "apply_action (ToggleSelectedDocuments docId) s =
     s\<lparr>selectedDocuments := toggle docId (selectedDocuments s)\<rparr>"
| "apply_action (Axios r) s = s\<lparr>requests := requests s @ [r]\<rparr>"
| "apply_action (SetTimeout_loadUserDocuments ms) s = s\<lparr>timers := timers s @ [ms]\<rparr>"

definition run :: "action list \<Rightarrow> state \<Rightarrow> state" where
  "run acts s = fold apply_action acts s"

fun is_request :: "action \<Rightarrow> bool" where
  "is_request (Axios r) = True"
| "is_request a = False"

section \<open>Handlers\<close>

text \<open>
  Each asynchronous handler has two parts: what runs up to its \<^verbatim>\<open>await\<close>, and (suffix
  \<open>_then\<close>) what runs when the awaited promise settles, \<open>Inr\<close> with the response or
  \<open>Inl\<close> with the error. \<open>now\<close> is the value of \<^verbatim>\<open>Date.now()\<close> in that part.
  Writing to the console, resizing the text area and scrolling to the last message do not
  touch the state and are left out.
\<close>

subsection \<open>\<^verbatim>\<open>loadUserDocuments\<close>\<close>

definition loadUserDocuments :: "state \<Rightarrow> action list" where
  "loadUserDocuments s = [Axios (Get_documents (userId s))]"

definition loadUserDocuments_then :: "axios_error + list_response \<Rightarrow> action list" where
  "loadUserDocuments_then r =
     (case r of
        Inr response \<Rightarrow>
          [SetUploadedDocuments (case documents response of Some ds \<Rightarrow> ds | None \<Rightarrow> [])]
      | Inl error \<Rightarrow> [])"

subsection \<open>\<^verbatim>\<open>onDrop\<close>\<close>

text \<open>
  \<^verbatim>\<open>Promise.all\<close> over the promises \<open>0..<length values\<close>. \<open>values\<close> holds what has been
  fulfilled so far; the second argument lists the settlements still to come, in the order
  in which they happen, each with the index of its promise. The result is \<open>None\<close> while
  the combined promise is pending. It is fulfilled once every slot is filled, and rejected
  by the first rejection that arrives before that; later settlements change nothing.
\<close>

fun promise_all :: "'a option list \<Rightarrow> (nat \<times> ('e + 'a)) list \<Rightarrow> ('e + 'a list) option" where
  "promise_all values [] =
     (case those values of Some vs \<Rightarrow> Some (Inr vs) | None \<Rightarrow> None)"
| "promise_all values ((i, r) # rest) =
     (case those values of
        Some vs \<Rightarrow> Some (Inr vs)
      | None \<Rightarrow>
          (if i < length values then
             (case r of
                Inl e \<Rightarrow> Some (Inl e)
              | Inr v \<Rightarrow> promise_all (values[i := Some v]) rest)
           else promise_all values rest))"

text \<open>The body of the \<^verbatim>\<open>async (file) => ...\<close> callback after its \<^verbatim>\<open>await axios.post\<close>.\<close>

definition upload_record :: "js_file \<Rightarrow> upload_response \<Rightarrow> document" where
  "upload_record f response =
     \<lparr>d_id = filename response, d_doc_id = None, d_name = Some (f_name f),
      d_filename = None, d_size = Some (f_size f), d_type = Some (f_type f),
      d_status = Some (lit ''processing''), d_total_chunks = None\<rparr>"

definition uploadPromise :: "js_file \<Rightarrow> axios_error + upload_response \<Rightarrow> axios_error + document" where
  "uploadPromise f r = (case r of Inl error \<Rightarrow> Inl error | Inr response \<Rightarrow> Inr (upload_record f response))"

definition onDrop :: "js_file list \<Rightarrow> state \<Rightarrow> action list" where
  "onDrop acceptedFiles s =
     SetIsUploading True # map (\<lambda>f. Axios (Post_upload f (userId s))) acceptedFiles"

definition uploaded_message :: "nat \<Rightarrow> js_file list \<Rightarrow> message" where
  "uploaded_message now acceptedFiles =
     \<lparr>m_id = now, m_type = System,
      m_content = page_facing_up @ lit '' Uploaded '' @ show_nat (length acceptedFiles) @
        lit '' file(s): '' @ join (lit '', '') (map f_name acceptedFiles) @
        lit ''. Processing in background...'',
      m_sources = None\<rparr>"

definition upload_error_message :: "nat \<Rightarrow> axios_error \<Rightarrow> message" where
  "upload_error_message now error =
     \<lparr>m_id = now, m_type = System,
      m_content = cross_mark @ lit '' Error uploading files: '' @ error_text error,
      m_sources = None\<rparr>"

text \<open>
  What runs after \<^verbatim>\<open>await Promise.all(uploadPromises)\<close>. \<open>settled\<close> lists the upload
  requests that have settled by then, in the order in which they settled: \<open>(i, r)\<close> is
  the outcome \<open>r\<close> of the request for \<open>acceptedFiles ! i\<close>. Nothing runs while the combined
  promise is pending; both branches end with the \<^verbatim>\<open>finally\<close> block.
\<close>

definition onDrop_then ::
    "nat \<Rightarrow> js_file list \<Rightarrow> (nat \<times> (axios_error + upload_response)) list \<Rightarrow> action list" where
  "onDrop_then now acceptedFiles settled =
     (case promise_all (replicate (length acceptedFiles) None)
             (map (\<lambda>(i, r). (i, uploadPromise (acceptedFiles ! i) r)) settled) of
        None \<Rightarrow> []
      | Some (Inr newFiles) \<Rightarrow>
          [AppendUploadedDocuments newFiles,
           SetMessages (uploaded_message now acceptedFiles),
           SetTimeout_loadUserDocuments 2000,
           SetIsUploading False]
      | Some (Inl error) \<Rightarrow>
          [SetMessages (upload_error_message now error),
           SetIsUploading False])"

subsection \<open>\<^verbatim>\<open>sendMessage\<close>\<close>

definition upload_first_message :: "nat \<Rightarrow> message" where
  "upload_first_message now =
     \<lparr>m_id = now, m_type = System,
      m_content = page_facing_up @
        lit '' Please upload some documents first before asking questions.'',
      m_sources = None\<rparr>"

definition select_first_message :: "nat \<Rightarrow> message" where
  "select_first_message now =
     \<lparr>m_id = now, m_type = System,
      m_content = clipboard @
        lit '' Please select one or more documents to search in before asking questions.'',
      m_sources = None\<rparr>"

definition userMessage :: "nat \<Rightarrow> state \<Rightarrow> message" where
  "userMessage now s =
     \<lparr>m_id = now, m_type = User, m_content = inputMessage s, m_sources = None\<rparr>"

definition query_request :: "state \<Rightarrow> request" where
  "query_request s =
     Post_query \<lparr>user_id = userId s, query = inputMessage s,
                 doc_ids = selectedDocuments s, top_k = 5\<rparr>"

definition sendMessage :: "nat \<Rightarrow> state \<Rightarrow> action list" where
  "sendMessage now s =
     (if trim (inputMessage s) = [] then []
      else if length (uploadedDocuments s) = 0 then [SetMessages (upload_first_message now)]
      else if length (selectedDocuments s) = 0 then [SetMessages (select_first_message now)]
      else [SetMessages (userMessage now s),
            SetInputMessage [],
            SetIsLoading True,
            Axios (query_request s)])"

definition aiMessage :: "nat \<Rightarrow> query_response \<Rightarrow> message" where
  "aiMessage now response =
     \<lparr>m_id = now + 1, m_type = AI, m_content = answer response,
      m_sources = Some (case sources response of Some cs \<Rightarrow> cs | None \<Rightarrow> [])\<rparr>"

definition query_error_message :: "nat \<Rightarrow> axios_error \<Rightarrow> message" where
  "query_error_message now error =
     \<lparr>m_id = now + 1, m_type = System,
      m_content = cross_mark @ lit '' Error getting response: '' @ error_text error,
      m_sources = None\<rparr>"

definition sendMessage_then :: "nat \<Rightarrow> axios_error + query_response \<Rightarrow> action list" where
  "sendMessage_then now r =
     (case r of
        Inr response \<Rightarrow> [SetMessages (aiMessage now response), SetIsLoading False]
      | Inl error \<Rightarrow> [SetMessages (query_error_message now error), SetIsLoading False])"

subsection \<open>\<^verbatim>\<open>deleteDocument\<close> and the Clear All button\<close>

definition deleteDocument :: "state \<Rightarrow> action list" where
  "deleteDocument s = [Axios (Delete_documents (userId s))]"

definition deleted_message :: "nat \<Rightarrow> message" where
  "deleted_message now =
     \<lparr>m_id = now, m_type = System,
      m_content = wastebasket @ lit '' All documents deleted successfully.'',
      m_sources = None\<rparr>"

definition delete_error_message :: "nat \<Rightarrow> axios_error \<Rightarrow> message" where
  "delete_error_message now error =
     \<lparr>m_id = now, m_type = System,
      m_content = cross_mark @ lit '' Error deleting documents: '' @ error_text error,
      m_sources = None\<rparr>"

definition deleteDocument_then :: "nat \<Rightarrow> axios_error + unit \<Rightarrow> action list" where
  "deleteDocument_then now r =
     (case r of
        Inr ack \<Rightarrow>
          [SetUploadedDocuments [], SetSelectedDocuments [], SetMessages (deleted_message now)]
      | Inl error \<Rightarrow> [SetMessages (delete_error_message now error)])"

text \<open>The attribute \<^verbatim>\<open>disabled={uploadedDocuments.length === 0}\<close> of the Clear All button.\<close>

definition clearAll_disabled :: "state \<Rightarrow> bool" where
  "clearAll_disabled s \<longleftrightarrow> length (uploadedDocuments s) = 0"

subsection \<open>Selection\<close>

definition toggleDocumentSelection :: "js_string \<Rightarrow> action list" where
  "toggleDocumentSelection docId = [ToggleSelectedDocuments docId]"

text \<open>\<^verbatim>\<open>doc.doc_id || doc.id\<close>, as \<^verbatim>\<open>selectAllDocuments\<close> and the document cards compute it.\<close>

definition docId_of :: "document \<Rightarrow> js_string option" where
  "docId_of doc = or_else (d_doc_id doc) (d_id doc)"

definition allDocIds :: "document list \<Rightarrow> js_string list" where
  "allDocIds docs = map the (filter truthy (map docId_of docs))"

definition selectAllDocuments :: "state \<Rightarrow> action list" where
  "selectAllDocuments s = [SetSelectedDocuments (allDocIds (uploadedDocuments s))]"

definition deselectAllDocuments :: "action list" where
  "deselectAllDocuments = [SetSelectedDocuments []]"

text \<open>
  The \<^verbatim>\<open>onClick\<close> of the card rendered for \<open>doc\<close>:
  \<^verbatim>\<open>docId && toggleDocumentSelection(docId)\<close>.
\<close>

definition card_onClick :: "document \<Rightarrow> action list" where
  "card_onClick doc =
     (case docId_of doc of
        Some docId \<Rightarrow> (if docId \<noteq> [] then toggleDocumentSelection docId else [])
      | None \<Rightarrow> [])"

definition handleInputChange :: "js_string \<Rightarrow> action list" where
  "handleInputChange v = [SetInputMessage v]"

subsection \<open>The controls that call \<^verbatim>\<open>sendMessage\<close> and \<^verbatim>\<open>deleteDocument\<close>\<close>

text \<open>
  \<^verbatim>\<open>sendMessage\<close> has two call sites: the \<^verbatim>\<open>onClick\<close> of the Send button, and
  \<^verbatim>\<open>handleKeyPress\<close>, the \<^verbatim>\<open>onKeyPress\<close> of the text area, for the Enter key without
  Shift. \<^verbatim>\<open>deleteDocument\<close> has one, the \<^verbatim>\<open>onClick\<close> of the Clear All button. Each
  control carries a \<^verbatim>\<open>disabled\<close> attribute, and a disabled control delivers no event.
\<close>

record key_event =
  e_key :: js_string
  e_shiftKey :: bool

definition handleKeyPress :: "key_event \<Rightarrow> nat \<Rightarrow> state \<Rightarrow> action list" where
  "handleKeyPress e now s =
     (if e_key e = lit ''Enter'' \<and> \<not> e_shiftKey e then sendMessage now s else [])"

definition textarea_disabled :: "state \<Rightarrow> bool" where
  "textarea_disabled s \<longleftrightarrow> length (uploadedDocuments s) = 0 \<or> isLoading s"

definition send_disabled :: "state \<Rightarrow> bool" where
  "send_disabled s \<longleftrightarrow>
     trim (inputMessage s) = [] \<or> length (uploadedDocuments s) = 0 \<or> isLoading s"

definition textarea_onKeyPress :: "key_event \<Rightarrow> nat \<Rightarrow> state \<Rightarrow> action list" where
  "textarea_onKeyPress e now s = (if textarea_disabled s then [] else handleKeyPress e now s)"

definition send_onClick :: "nat \<Rightarrow> state \<Rightarrow> action list" where
  "send_onClick now s = (if send_disabled s then [] else sendMessage now s)"

definition clearAll_onClick :: "state \<Rightarrow> action list" where
  "clearAll_onClick s = (if clearAll_disabled s then [] else deleteDocument s)"

subsection \<open>Events\<close>

text \<open>
  Everything that can run on the component: a handler up to its \<^verbatim>\<open>await\<close>, or the
  continuation of one. \<open>step\<close> runs the effects of an event on the current state.
\<close>

datatype event =
    LoadUserDocuments
  | LoadUserDocuments_then "axios_error + list_response"
  | OnDrop "js_file list"
  | OnDrop_then nat "js_file list" "(nat \<times> (axios_error + upload_response)) list"
  | SendMessage nat
  | SendMessage_then nat "axios_error + query_response"
  | DeleteDocument
  | DeleteDocument_then nat "axios_error + unit"
  | Card_onClick document
  | SelectAllDocuments
  | DeselectAllDocuments
  | HandleInputChange js_string

fun handler :: "event \<Rightarrow> state \<Rightarrow> action list" where
  "handler LoadUserDocuments s = loadUserDocuments s"
| "handler (LoadUserDocuments_then r) s = loadUserDocuments_then r"
| "handler (OnDrop acceptedFiles) s = onDrop acceptedFiles s"
| "handler (OnDrop_then now acceptedFiles settled) s = onDrop_then now acceptedFiles settled"
| "handler (SendMessage now) s = sendMessage now s"
| "handler (SendMessage_then now r) s = sendMessage_then now r"
| "handler DeleteDocument s = deleteDocument s"
| "handler (DeleteDocument_then now r) s = deleteDocument_then now r"
| "handler (Card_onClick doc) s = card_onClick doc"
| "handler SelectAllDocuments s = selectAllDocuments s"
| "handler DeselectAllDocuments s = deselectAllDocuments"
| "handler (HandleInputChange v) s = handleInputChange v"

definition step :: "event \<Rightarrow> state \<Rightarrow> state" where
  "step ev s = run (handler ev s) s"

definition steps :: "event list \<Rightarrow> state \<Rightarrow> state" where
  "steps evs s = fold step evs s"

text \<open>The state of a freshly mounted component with session identifier \<open>uid\<close>.\<close>

definition init :: "js_string \<Rightarrow> state" where
  "init uid =
     \<lparr>messages = [], inputMessage = [], isLoading = False, uploadedDocuments = [],
      isUploading = False, selectedDocuments = [], userId = uid, requests = [], timers = []\<rparr>"

section \<open>Notions used by the properties\<close>

text \<open>The messages a list of effects appends to the transcript, in order.\<close>

fun appended :: "action list \<Rightarrow> message list" where
  "appended [] = []"
| "appended (SetMessages m # acts) = m # appended acts"
| "appended (a # acts) = appended acts"

text \<open>
  Every selected identifier is the identifier of a listed document, as
  \<^verbatim>\<open>selectAllDocuments\<close> computes the identifiers of the list.
\<close>

definition selection_listed :: "state \<Rightarrow> bool" where
  "selection_listed s \<longleftrightarrow>
     set (selectedDocuments s) \<subseteq> set (allDocIds (uploadedDocuments s))"

text \<open>
  The two events whose effect on the selection depends on their argument: a card is only
  rendered, and so only clicked, for a document of the list; and a refresh keeps every
  selected identifier listed only when the returned list still has it.
\<close>

fun selection_safe :: "event \<Rightarrow> state \<Rightarrow> bool" where
  "selection_safe (Card_onClick doc) s \<longleftrightarrow> doc \<in> set (uploadedDocuments s)"
| "selection_safe (LoadUserDocuments_then (Inr response)) s \<longleftrightarrow>
     set (selectedDocuments s) \<subseteq>
       set (allDocIds (case documents response of Some ds \<Rightarrow> ds | None \<Rightarrow> []))"
| "selection_safe ev s \<longleftrightarrow> True"

text \<open>
  For a batch of \<open>n\<close> upload requests and the settlements so far: whether every request
  has settled, and the error of the first request that failed, if one did.
\<close>

definition all_settled :: "nat \<Rightarrow> (nat \<times> 'r) list \<Rightarrow> bool" where
  "all_settled n settled \<longleftrightarrow> list_all (\<lambda>i. i \<in> set (map fst settled)) [0..<n]"

fun first_failure :: "(nat \<times> ('e + 'a)) list \<Rightarrow> 'e option" where
  "first_failure [] = None"
| "first_failure ((i, Inl e) # rest) = Some e"
| "first_failure ((i, Inr v) # rest) = first_failure rest"

text \<open>
  The transcript entries of a question that passes the three checks of \<^verbatim>\<open>sendMessage\<close>.
\<close>

definition response_message :: "nat \<Rightarrow> axios_error + query_response \<Rightarrow> message" where
  "response_message now r =
     (case r of Inr response \<Rightarrow> aiMessage now response
              | Inl error \<Rightarrow> query_error_message now error)"

section \<open>Concrete inputs\<close>

text \<open>
  The files, documents and states of the worked examples: two files to upload, the
  record the backend lists for the first of them, a transport error without a response,
  and a component with one listed and selected document and a typed question.
\<close>

definition file_a :: js_file where
  "file_a = \<lparr>f_name = lit ''a.pdf'', f_size = 10000, f_type = lit ''application/pdf''\<rparr>"

definition file_b :: js_file where
  "file_b = \<lparr>f_name = lit ''b.txt'', f_size = 500, f_type = lit ''text/plain''\<rparr>"

definition network_error :: axios_error where
  "network_error = \<lparr>detail = None, message = lit ''Network Error''\<rparr>"

definition doc_d1 :: document where
  "doc_d1 = \<lparr>d_id = None, d_doc_id = Some (lit ''d1''), d_name = None,
      d_filename = Some (lit ''a.pdf''), d_size = None, d_type = None, d_status = None,
      d_total_chunks = Some 12\<rparr>"

definition ready_state :: state where
  "ready_state = (init (lit ''user_1''))\<lparr>inputMessage := lit ''What is the summary?'',
      uploadedDocuments := [doc_d1], selectedDocuments := [lit ''d1'']\<rparr>"

text \<open>The key event of Enter pressed without Shift.\<close>

definition enter_key :: key_event where
  "enter_key = \<lparr>e_key = lit ''Enter'', e_shiftKey = False\<rparr>"

text \<open>
  A session in which the user uploads \<open>file_a\<close>, the upload succeeds, the user selects the
  new card, and the scheduled refresh is issued.
\<close>

definition stale_selection_events :: "event list" where
  "stale_selection_events =
     [OnDrop [file_a],
      OnDrop_then 1 [file_a] [(0, Inr \<lparr>filename = Some (lit ''a.pdf'')\<rparr>)],
      Card_onClick (upload_record file_a \<lparr>filename = Some (lit ''a.pdf'')\<rparr>),
      LoadUserDocuments]"

section \<open>Running effects\<close>

lemma run_Nil: "run [] s = s"
  by (simp add: run_def)

lemma run_Cons: "run (a # acts) s = run acts (apply_action a s)"
  by (simp add: run_def)

lemma run_append: "run (xs @ ys) s = run ys (run xs s)"
  by (simp add: run_def)

lemma messages_run: "messages (run acts s) = messages s @ appended acts"
proof (induction acts arbitrary: s)
  case Nil
  show ?case by (simp add: run_Nil)
next
  case (Cons a acts)
  show ?case by (cases a) (simp_all add: run_Cons Cons.IH)
qed

lemma steps_Nil: "steps [] s = s"
  by (simp add: steps_def)

lemma steps_Cons: "steps (ev # evs) s = steps evs (step ev s)"
  by (simp add: steps_def)

lemma messages_step: "messages (step ev s) = messages s @ appended (handler ev s)"
  by (simp add: step_def messages_run)

lemma messages_steps: "\<exists>new. messages (steps evs s) = messages s @ new"
proof (induction evs arbitrary: s)
  case Nil
  show ?case by (simp add: steps_Nil)
next
  case (Cons ev evs)
  obtain new where "messages (steps evs (step ev s)) = messages (step ev s) @ new"
    using Cons.IH by blast
  then show ?case by (simp add: steps_Cons messages_step)
qed

section \<open>\<^verbatim>\<open>Promise.all\<close>\<close>

lemma those_None_iff: "those vs = None \<longleftrightarrow> None \<in> set vs"
  by (induction vs) (auto split: option.splits)

lemma those_Some_map: "None \<notin> set vs \<Longrightarrow> those vs = Some (map the vs)"
proof (induction vs)
  case Nil
  show ?case by simp
next
  case (Cons a vs)
  then show ?case by (cases a) auto
qed

lemma promise_all_reject:
  "i < length vals \<Longrightarrow> vals ! i = None \<Longrightarrow> first_failure pre = None \<Longrightarrow>
   i \<notin> set (map fst pre) \<Longrightarrow>
   promise_all vals (pre @ (i, Inl e) # post) = Some (Inl e)"
proof (induction pre arbitrary: vals)
  case Nil
  then have "None \<in> set vals" by (metis nth_mem)
  then have "those vals = None" by (simp add: those_None_iff)
  with Nil show ?case by simp
next
  case (Cons ev pre)
  obtain j r where ev: "ev = (j, r)" by (cases ev)
  from Cons.prems ev obtain v where r: "r = Inr v" by (cases r) auto
  have "None \<in> set vals" using Cons.prems(1,2) by (metis nth_mem)
  then have th: "those vals = None" by (simp add: those_None_iff)
  have ne: "j \<noteq> i" using Cons.prems(4) ev by auto
  show ?case
  proof (cases "j < length vals")
    case True
    have "promise_all (vals[j := Some v]) (pre @ (i, Inl e) # post) = Some (Inl e)"
      using Cons.prems ev r ne by (intro Cons.IH) auto
    with th True ev r show ?thesis by simp
  next
    case False
    have "promise_all vals (pre @ (i, Inl e) # post) = Some (Inl e)"
      using Cons.prems ev r by (intro Cons.IH) auto
    with th False ev r show ?thesis by simp
  qed
qed

lemma promise_all_pending:
  "j < length vals \<Longrightarrow> vals ! j = None \<Longrightarrow> first_failure evs = None \<Longrightarrow>
   j \<notin> set (map fst evs) \<Longrightarrow> promise_all vals evs = None"
proof (induction evs arbitrary: vals)
  case Nil
  then have "None \<in> set vals" by (metis nth_mem)
  then have "those vals = None" by (simp add: those_None_iff)
  then show ?case by simp
next
  case (Cons ev evs)
  obtain k r where ev: "ev = (k, r)" by (cases ev)
  from Cons.prems ev obtain v where r: "r = Inr v" by (cases r) auto
  have "None \<in> set vals" using Cons.prems(1,2) by (metis nth_mem)
  then have th: "those vals = None" by (simp add: those_None_iff)
  have ne: "k \<noteq> j" using Cons.prems(4) ev by auto
  show ?case
  proof (cases "k < length vals")
    case True
    have "promise_all (vals[k := Some v]) evs = None"
      using Cons.prems ev r ne by (intro Cons.IH) auto
    with th True ev r show ?thesis by simp
  next
    case False
    have "promise_all vals evs = None"
      using Cons.prems ev r by (intro Cons.IH) auto
    with th False ev r show ?thesis by simp
  qed
qed

lemma promise_all_fulfil:
  "distinct order \<Longrightarrow> set order = {j. j < length vals \<and> vals ! j = None} \<Longrightarrow>
   promise_all vals (map (\<lambda>i. (i, Inr (g i))) order)
     = Some (Inr (map (\<lambda>j. case vals ! j of Some v \<Rightarrow> v | None \<Rightarrow> g j) [0..<length vals]))"
proof (induction order arbitrary: vals)
  case Nil
  then have "\<And>j. j < length vals \<Longrightarrow> vals ! j \<noteq> None" by auto
  then have nn: "None \<notin> set vals" by (auto simp: in_set_conv_nth)
  have "map the vals = map (\<lambda>j. case vals ! j of Some v \<Rightarrow> v | None \<Rightarrow> g j) [0..<length vals]"
  proof (rule nth_equalityI)
    show "length (map the vals) = length (map (\<lambda>j. case vals ! j of Some v \<Rightarrow> v | None \<Rightarrow> g j) [0..<length vals])"
      by simp
  next
    fix k assume "k < length (map the vals)"
    then have k: "k < length vals" by simp
    then have "vals ! k \<in> set vals" by simp
    with nn obtain v where "vals ! k = Some v" by (cases "vals ! k") auto
    with k show "map the vals ! k = map (\<lambda>j. case vals ! j of Some v \<Rightarrow> v | None \<Rightarrow> g j) [0..<length vals] ! k"
      by simp
  qed
  with nn show ?case by (simp add: those_Some_map)
next
  case (Cons i order)
  have mem: "\<And>j. j \<in> set (i # order) \<longleftrightarrow> j < length vals \<and> vals ! j = None"
    using Cons.prems(2) by blast
  have i: "i < length vals" "vals ! i = None" using mem [of i] by simp_all
  have inotin: "i \<notin> set order" and dist: "distinct order" using Cons.prems(1) by simp_all
  from i have "None \<in> set vals" by (metis nth_mem)
  then have th: "those vals = None" by (simp add: those_None_iff)
  let ?vals = "vals[i := Some (g i)]"
  have "\<And>j. j \<in> set order \<longleftrightarrow> j < length ?vals \<and> ?vals ! j = None"
  proof -
    fix j
    show "j \<in> set order \<longleftrightarrow> j < length ?vals \<and> ?vals ! j = None"
    proof (cases "j = i")
      case True
      with inotin i show ?thesis by simp
    next
      case False
      with mem [of j] show ?thesis by simp
    qed
  qed
  then have seteq: "set order = {j. j < length ?vals \<and> ?vals ! j = None}" by blast
  note IH = Cons.IH [OF dist seteq]
  have "map (\<lambda>j. case ?vals ! j of Some v \<Rightarrow> v | None \<Rightarrow> g j) [0..<length ?vals]
     = map (\<lambda>j. case vals ! j of Some v \<Rightarrow> v | None \<Rightarrow> g j) [0..<length vals]"
    using i by (simp add: nth_list_update)
  with IH show ?case using th i by simp
qed

section \<open>Toggling a selection\<close>

lemma toggle_absent: "docId \<notin> set prev \<Longrightarrow> toggle docId prev = prev @ [docId]"
  by (simp add: toggle_def)

lemma toggle_present:
  "docId \<in> set prev \<Longrightarrow> toggle docId prev = filter (\<lambda>i. i \<noteq> docId) prev"
  by (simp add: toggle_def)

lemma set_toggle_twice: "set (toggle docId (toggle docId prev)) = set prev"
  by (auto simp: toggle_def)

section \<open>Uploading\<close>

lemma first_failure_split:
  "first_failure evs = Some e \<Longrightarrow>
   \<exists>pre i post. evs = pre @ (i, Inl e) # post \<and> first_failure pre = None"
proof (induction evs rule: first_failure.induct)
  case 1
  then show ?case by simp
next
  case (2 i e' rest)
  then have "(i, Inl e') # rest = [] @ (i, Inl e) # rest \<and> first_failure [] = (None :: 'a option)"
    by simp
  then show ?case by blast
next
  case (3 i v rest)
  then obtain pre k post where "rest = pre @ (k, Inl e) # post" "first_failure pre = None"
    by auto
  then have "(i, Inr v) # rest = ((i, Inr v) # pre) @ (k, Inl e) # post \<and>
      first_failure ((i, Inr v) # pre) = None"
    by simp
  then show ?case by blast
qed

lemma promise_all_complete:
  "first_failure evs = None \<Longrightarrow>
   {j. j < length vals \<and> vals ! j = None} \<subseteq> set (map fst evs) \<Longrightarrow>
   \<exists>vs. promise_all vals evs = Some (Inr vs)"
proof (induction evs arbitrary: vals)
  case Nil
  then have "\<And>j. j < length vals \<Longrightarrow> vals ! j \<noteq> None" by auto
  then have "None \<notin> set vals" by (auto simp: in_set_conv_nth)
  then show ?case by (simp add: those_Some_map)
next
  case (Cons ev evs)
  obtain k r where ev: "ev = (k, r)" by (cases ev)
  from Cons.prems ev obtain v where r: "r = Inr v" by (cases r) auto
  have ff: "first_failure evs = None" using Cons.prems(1) ev r by simp
  have sub: "\<And>j. j < length vals \<Longrightarrow> vals ! j = None \<Longrightarrow> j = k \<or> j \<in> set (map fst evs)"
    using Cons.prems(2) ev by auto
  show ?case
  proof (cases "those vals")
    case (Some vs)
    with ev show ?thesis by simp
  next
    case None
    show ?thesis
    proof (cases "k < length vals")
      case True
      have "{j. j < length (vals[k := Some v]) \<and> vals[k := Some v] ! j = None}
              \<subseteq> set (map fst evs)"
      proof
        fix j assume "j \<in> {j. j < length (vals[k := Some v]) \<and> vals[k := Some v] ! j = None}"
        then have j: "j < length vals" "vals[k := Some v] ! j = None" by simp_all
        then have "j \<noteq> k" using True by auto
        with j have "vals ! j = None" by simp
        with sub j \<open>j \<noteq> k\<close> show "j \<in> set (map fst evs)" by blast
      qed
      with ff obtain vs where "promise_all (vals[k := Some v]) evs = Some (Inr vs)"
        using Cons.IH by blast
      with None True ev r show ?thesis by simp
    next
      case False
      have "{j. j < length vals \<and> vals ! j = None} \<subseteq> set (map fst evs)"
        using sub False by auto
      with ff obtain vs where "promise_all vals evs = Some (Inr vs)"
        using Cons.IH by blast
      with None False ev r show ?thesis by simp
    qed
  qed
qed

lemma first_failure_uploadPromise:
  "first_failure (map (\<lambda>(i, r). (i, uploadPromise (fs ! i) r)) settled) = first_failure settled"
  by (induction settled rule: first_failure.induct) (simp_all add: uploadPromise_def)

lemma map_fst_uploadPromise:
  "map fst (map (\<lambda>(i, r). (i, uploadPromise (fs ! i) r)) settled) = map fst settled"
  by (induction settled) auto

lemma onDrop_then_failure:
  assumes "distinct (map fst settled)"
    and "\<forall>i\<in>set (map fst settled). i < length acceptedFiles"
    and "first_failure settled = Some error"
  shows "onDrop_then now acceptedFiles settled
           = [SetMessages (upload_error_message now error), SetIsUploading False]"
proof -
  let ?evs = "map (\<lambda>(i, r). (i, uploadPromise (acceptedFiles ! i) r)) settled"
  have "first_failure ?evs = Some error"
    using assms(3) by (simp add: first_failure_uploadPromise)
  from first_failure_split [OF this]
  obtain pre i post where split: "?evs = pre @ (i, Inl error) # post"
    and pre: "first_failure pre = None"
    by blast
  have fsts: "map fst settled = map fst pre @ i # map fst post"
  proof -
    have "map fst settled = map fst ?evs" by (simp only: map_fst_uploadPromise)
    also have "\<dots> = map fst pre @ i # map fst post" by (simp only: split) simp
    finally show ?thesis .
  qed
  have "i \<notin> set (map fst pre)" using assms(1) fsts by auto
  moreover have "i < length acceptedFiles" using assms(2) fsts by auto
  ultimately have "promise_all (replicate (length acceptedFiles) None) (pre @ (i, Inl error) # post)
      = Some (Inl error)"
    using pre by (intro promise_all_reject) simp_all
  then show ?thesis by (simp add: onDrop_then_def split)
qed

lemma onDrop_then_pending:
  assumes "first_failure settled = None"
    and "\<not> all_settled (length acceptedFiles) settled"
  shows "onDrop_then now acceptedFiles settled = []"
proof -
  let ?evs = "map (\<lambda>(i, r). (i, uploadPromise (acceptedFiles ! i) r)) settled"
  from assms(2) obtain j where j: "j < length acceptedFiles" "j \<notin> set (map fst settled)"
    by (auto simp: all_settled_def list_all_iff)
  have "promise_all (replicate (length acceptedFiles) None) ?evs = None"
    using j assms(1)
    by (intro promise_all_pending [where j = j])
       (simp_all add: first_failure_uploadPromise map_fst_uploadPromise del: map_map)
  then show ?thesis by (simp add: onDrop_then_def)
qed

lemma onDrop_then_complete:
  assumes "first_failure settled = None"
    and "all_settled (length acceptedFiles) settled"
  shows "\<exists>newFiles. onDrop_then now acceptedFiles settled
           = [AppendUploadedDocuments newFiles,
              SetMessages (uploaded_message now acceptedFiles),
              SetTimeout_loadUserDocuments 2000,
              SetIsUploading False]"
proof -
  let ?evs = "map (\<lambda>(i, r). (i, uploadPromise (acceptedFiles ! i) r)) settled"
  have "{j. j < length (replicate (length acceptedFiles) (None :: document option)) \<and>
            replicate (length acceptedFiles) (None :: document option) ! j = None}
          \<subseteq> set (map fst ?evs)"
    using assms(2) unfolding map_fst_uploadPromise
    by (auto simp: all_settled_def list_all_iff)
  moreover have "first_failure ?evs = None"
    using assms(1) by (simp add: first_failure_uploadPromise)
  ultimately obtain vs where "promise_all (replicate (length acceptedFiles) None) ?evs = Some (Inr vs)"
    using promise_all_complete by blast
  then show ?thesis by (simp add: onDrop_then_def)
qed

lemma run_requests:
  "run (map (\<lambda>f. Axios (g f)) fs) s = s\<lparr>requests := requests s @ map g fs\<rparr>"
  by (induction fs arbitrary: s) (simp_all add: run_Nil run_Cons)

lemma join_contains: "x \<in> set xs \<Longrightarrow> \<exists>before after. join sep xs = before @ x @ after"
proof (induction sep xs rule: join.induct)
  case (1 sep)
  then show ?case by simp
next
  case (2 sep y)
  then have "join sep [y] = [] @ x @ []" by simp
  then show ?case by blast
next
  case (3 sep y z zs)
  show ?case
  proof (cases "x = y")
    case True
    then have "join sep (y # z # zs) = [] @ x @ (sep @ join sep (z # zs))" by simp
    then show ?thesis by blast
  next
    case False
    with 3 obtain before after where "join sep (z # zs) = before @ x @ after" by auto
    then have "join sep (y # z # zs) = (y @ sep @ before) @ x @ after" by simp
    then show ?thesis by blast
  qed
qed

lemma map_nth_zip:
  "length ys = length xs \<Longrightarrow> map (\<lambda>i. f (xs ! i) (ys ! i)) [0..<length xs] = map2 f xs ys"
  by (rule nth_equalityI) simp_all

lemma error_text_eq:
  "error_text error =
     (case detail error of Some d \<Rightarrow> if d = [] then message error else d
                         | None \<Rightarrow> message error)"
  by (simp add: error_text_def or_else_def truthy_def split: option.splits)

section \<open>Selected and listed documents\<close>

lemma allDocIds_append: "allDocIds (xs @ ys) = allDocIds xs @ allDocIds ys"
  by (simp add: allDocIds_def)

lemma docId_listed:
  assumes "doc \<in> set docs" and "docId_of doc = Some i" and "i \<noteq> []"
  shows "i \<in> set (allDocIds docs)"
proof -
  have "truthy (docId_of doc)" using assms(2,3) by (simp add: truthy_def)
  then have "docId_of doc \<in> set (filter truthy (map docId_of docs))"
    using assms(1) by simp
  then have "the (docId_of doc) \<in> set (allDocIds docs)"
    unfolding allDocIds_def by (metis imageI set_map)
  with assms(2) show ?thesis by simp
qed

lemma set_toggle_subset: "set (toggle i sel) \<subseteq> insert i (set sel)"
  by (auto simp: toggle_def)

lemma step_keeps_selection_listed:
  assumes "selection_listed s" and "selection_safe ev s"
  shows "selection_listed (step ev s)"
proof (cases ev)
  case LoadUserDocuments
  with assms show ?thesis
    by (simp add: step_def loadUserDocuments_def run_Cons run_Nil selection_listed_def)
next
  case (LoadUserDocuments_then r)
  with assms show ?thesis
    by (cases r)
       (simp_all add: step_def loadUserDocuments_then_def run_Cons run_Nil selection_listed_def)
next
  case (OnDrop acceptedFiles)
  with assms show ?thesis
    by (simp add: step_def onDrop_def run_Cons run_requests selection_listed_def)
next
  case (OnDrop_then now acceptedFiles settled)
  with assms show ?thesis
    by (auto simp: step_def onDrop_then_def run_Cons run_Nil selection_listed_def
        allDocIds_append split: option.splits sum.splits)
next
  case (SendMessage now)
  with assms show ?thesis
    by (auto simp: step_def sendMessage_def run_Cons run_Nil selection_listed_def)
next
  case (SendMessage_then now r)
  with assms show ?thesis
    by (cases r)
       (simp_all add: step_def sendMessage_then_def run_Cons run_Nil selection_listed_def)
next
  case DeleteDocument
  with assms show ?thesis
    by (simp add: step_def deleteDocument_def run_Cons run_Nil selection_listed_def)
next
  case (DeleteDocument_then now r)
  with assms show ?thesis
    by (cases r)
       (simp_all add: step_def deleteDocument_then_def run_Cons run_Nil selection_listed_def)
next
  case (Card_onClick doc)
  show ?thesis
  proof (cases "docId_of doc")
    case None
    with Card_onClick assms show ?thesis
      by (simp add: step_def card_onClick_def run_Nil)
  next
    case (Some i)
    show ?thesis
    proof (cases "i = []")
      case True
      with Some Card_onClick assms show ?thesis
        by (simp add: step_def card_onClick_def run_Nil)
    next
      case False
      have "doc \<in> set (uploadedDocuments s)" using assms(2) Card_onClick by simp
      then have "i \<in> set (allDocIds (uploadedDocuments s))"
        using Some False by (rule docId_listed)
      moreover have "set (toggle i (selectedDocuments s)) \<subseteq> insert i (set (selectedDocuments s))"
        by (rule set_toggle_subset)
      ultimately have "set (toggle i (selectedDocuments s))
          \<subseteq> set (allDocIds (uploadedDocuments s))"
        using assms(1) by (auto simp: selection_listed_def)
      with Some False Card_onClick show ?thesis
        by (simp add: step_def card_onClick_def toggleDocumentSelection_def run_Cons run_Nil
            selection_listed_def)
    qed
  qed
next
  case SelectAllDocuments
  then show ?thesis
    by (simp add: step_def selectAllDocuments_def run_Cons run_Nil selection_listed_def)
next
  case DeselectAllDocuments
  then show ?thesis
    by (simp add: step_def deselectAllDocuments_def run_Cons run_Nil selection_listed_def)
next
  case (HandleInputChange v)
  with assms show ?thesis
    by (simp add: step_def handleInputChange_def run_Cons run_Nil selection_listed_def)
qed

section \<open>The controls of the question\<close>

lemma controls_disabled_without_documents:
  "uploadedDocuments s = [] \<Longrightarrow>
   send_disabled s \<and> textarea_disabled s \<and>
   send_onClick now s = [] \<and> textarea_onKeyPress e now s = []"
  by (simp add: send_disabled_def textarea_disabled_def send_onClick_def
      textarea_onKeyPress_def)

lemma enabled_control_calls_sendMessage:
  "\<not> send_disabled s \<Longrightarrow> send_onClick now s = sendMessage now s"
  "\<not> textarea_disabled s \<Longrightarrow> e_key e = lit ''Enter'' \<Longrightarrow> \<not> e_shiftKey e \<Longrightarrow>
     textarea_onKeyPress e now s = sendMessage now s"
  by (simp_all add: send_onClick_def textarea_onKeyPress_def handleKeyPress_def)

section \<open>Asking a question\<close>

text \<open>
  C1 (amended). \<^verbatim>\<open>sendMessage\<close> checks three conditions in order before it sends
  anything. When the question is empty after trimming white space it returns at once: the
  state is unchanged and no transcript entry is appended. Otherwise, when the document
  list is empty it appends exactly one system entry, the request to upload documents;
  otherwise, when nothing is selected it appends exactly one system entry, the request to
  select documents. The two entries have different texts. In all three cases no request
  is issued.
\<close>

theorem sendMessage_preconditions:
  "(trim (inputMessage s) = [] \<longrightarrow> run (sendMessage now s) s = s) \<and>
   (trim (inputMessage s) \<noteq> [] \<and> uploadedDocuments s = [] \<longrightarrow>
      run (sendMessage now s) s = s\<lparr>messages := messages s @ [upload_first_message now]\<rparr>) \<and>
   (trim (inputMessage s) \<noteq> [] \<and> uploadedDocuments s \<noteq> [] \<and> selectedDocuments s = [] \<longrightarrow>
      run (sendMessage now s) s = s\<lparr>messages := messages s @ [select_first_message now]\<rparr>) \<and>
   (trim (inputMessage s) = [] \<or> uploadedDocuments s = [] \<or> selectedDocuments s = [] \<longrightarrow>
      filter is_request (sendMessage now s) = [] \<and>
      requests (run (sendMessage now s) s) = requests s) \<and>
   m_type (upload_first_message now) = System \<and>
   m_type (select_first_message now) = System \<and>
   m_content (upload_first_message now) \<noteq> m_content (select_first_message now')"
  by (simp add: sendMessage_def run_Cons run_Nil upload_first_message_def
      select_first_message_def page_facing_up_def clipboard_def)

text \<open>
  As first stated, every failed check appends one system entry. A blank question with a
  listed and selected document appends nothing.
\<close>

theorem sendMessage_blank_counterexample:
  "trim (inputMessage (ready_state\<lparr>inputMessage := lit ''   ''\<rparr>)) = [] \<and>
   uploadedDocuments (ready_state\<lparr>inputMessage := lit ''   ''\<rparr>) \<noteq> [] \<and>
   selectedDocuments (ready_state\<lparr>inputMessage := lit ''   ''\<rparr>) \<noteq> [] \<and>
   messages (run (sendMessage 1 (ready_state\<lparr>inputMessage := lit ''   ''\<rparr>))
               (ready_state\<lparr>inputMessage := lit ''   ''\<rparr>))
     = messages (ready_state\<lparr>inputMessage := lit ''   ''\<rparr>)"
  by (simp add: ready_state_def init_def lit_def trim_def isWhiteSpace_def sendMessage_def
      run_Nil)

theorem sendMessage_preconditions_witness:
  "run (sendMessage 1 ((init (lit ''u''))\<lparr>inputMessage := lit '' ''\<rparr>))
       ((init (lit ''u''))\<lparr>inputMessage := lit '' ''\<rparr>)
     = (init (lit ''u''))\<lparr>inputMessage := lit '' ''\<rparr> \<and>
   messages (run (sendMessage 1 ((init (lit ''u''))\<lparr>inputMessage := lit ''hi''\<rparr>))
       ((init (lit ''u''))\<lparr>inputMessage := lit ''hi''\<rparr>))
     = [upload_first_message 1] \<and>
   messages (run (sendMessage 1 (ready_state\<lparr>selectedDocuments := []\<rparr>))
       (ready_state\<lparr>selectedDocuments := []\<rparr>))
     = [select_first_message 1]"
  using sendMessage_preconditions [of "(init (lit ''u''))\<lparr>inputMessage := lit '' ''\<rparr>" 1 1]
    sendMessage_preconditions [of "(init (lit ''u''))\<lparr>inputMessage := lit ''hi''\<rparr>" 1 1]
    sendMessage_preconditions [of "ready_state\<lparr>selectedDocuments := []\<rparr>" 1 1]
  by (simp add: init_def ready_state_def lit_def trim_def isWhiteSpace_def)

text \<open>
  C7. When the three checks pass, the one request issued is the query with the session
  identifier, the question as typed, the current selection and \<open>top_k = 5\<close>. A response
  appends one \<open>AI\<close> entry with the answer and the returned citations, or no citations when
  the response has none; an error appends one system entry with the \<^verbatim>\<open>detail\<close> of the
  backend or, without one, the message of the error.
\<close>

theorem sendMessage_query:
  assumes "trim (inputMessage s) \<noteq> []" and "uploadedDocuments s \<noteq> []"
    and "selectedDocuments s \<noteq> []"
  shows "filter is_request (sendMessage now s)
           = [Axios (Post_query \<lparr>user_id = userId s, query = inputMessage s,
                                  doc_ids = selectedDocuments s, top_k = 5\<rparr>)] \<and>
         requests (run (sendMessage now s) s)
           = requests s @ [Post_query \<lparr>user_id = userId s, query = inputMessage s,
                                        doc_ids = selectedDocuments s, top_k = 5\<rparr>] \<and>
         messages (run (sendMessage_then now' (Inr response)) s')
           = messages s' @
             [\<lparr>m_id = now' + 1, m_type = AI, m_content = answer response,
               m_sources = Some (case sources response of Some cs \<Rightarrow> cs | None \<Rightarrow> [])\<rparr>] \<and>
         messages (run (sendMessage_then now' (Inl error)) s')
           = messages s' @
             [\<lparr>m_id = now' + 1, m_type = System,
               m_content = cross_mark @ lit '' Error getting response: '' @
                 (case detail error of
                    Some d \<Rightarrow> if d = [] then message error else d
                  | None \<Rightarrow> message error),
               m_sources = None\<rparr>]"
  using assms
  by (simp add: sendMessage_def sendMessage_then_def query_request_def run_Cons run_Nil
      aiMessage_def query_error_message_def error_text_def or_else_def truthy_def
      split: option.splits)

theorem sendMessage_query_witness:
  "requests (run (sendMessage 1 ready_state) ready_state)
     = [Post_query \<lparr>user_id = lit ''user_1'', query = lit ''What is the summary?'',
                     doc_ids = [lit ''d1''], top_k = 5\<rparr>]"
proof -
  have "trim (inputMessage ready_state) \<noteq> []"
    by (simp add: ready_state_def init_def lit_def trim_def isWhiteSpace_def)
  moreover have "uploadedDocuments ready_state \<noteq> []"
    and "selectedDocuments ready_state \<noteq> []"
    by (simp_all add: ready_state_def init_def)
  ultimately show ?thesis
    using sendMessage_query [of ready_state 1]
    by (simp add: ready_state_def init_def)
qed

text \<open>
  C8. A question is submitted by a click on the Send button or by Enter without Shift in
  the text area, while that control is enabled. For every question so submitted with
  text that is not blank and at least one document selected, the user entry is appended
  before the query is issued, and whatever else runs before the response arrives, the
  user entry stands in the transcript before the \<open>AI\<close> or system entry of the response.
\<close>

theorem sendMessage_user_entry_first:
  assumes "trim (inputMessage s) \<noteq> []" and "selectedDocuments s \<noteq> []"
    and "submitted = send_onClick now s \<and> \<not> send_disabled s \<or>
         submitted = textarea_onKeyPress e now s \<and> \<not> textarea_disabled s \<and>
           e_key e = lit ''Enter'' \<and> \<not> e_shiftKey e"
  shows "SetMessages (userMessage now s)
           \<in> set (takeWhile (\<lambda>a. \<not> is_request a) submitted) \<and>
         filter is_request submitted = [Axios (query_request s)] \<and>
         (\<exists>between.
            messages (run (sendMessage_then now' r) (steps evs (run submitted s)))
              = messages s @ userMessage now s # between @ [response_message now' r]) \<and>
         m_type (userMessage now s) = User \<and>
         m_content (userMessage now s) = inputMessage s \<and>
         (m_type (response_message now' r) = AI \<or> m_type (response_message now' r) = System)"
proof -
  have listed: "uploadedDocuments s \<noteq> []"
    using assms(3) by (auto simp: send_disabled_def textarea_disabled_def)
  have "submitted = sendMessage now s"
    using assms(3) by (auto simp: send_onClick_def textarea_onKeyPress_def handleKeyPress_def)
  then have acts: "submitted
      = [SetMessages (userMessage now s), SetInputMessage [], SetIsLoading True,
         Axios (query_request s)]"
    using assms(1,2) listed by (simp add: sendMessage_def)
  obtain between where
    "messages (steps evs (run submitted s)) = messages (run submitted s) @ between"
    using messages_steps by blast
  then have "messages (run (sendMessage_then now' r) (steps evs (run submitted s)))
      = messages s @ userMessage now s # between @ [response_message now' r]"
    by (cases r) (simp_all add: messages_run acts sendMessage_then_def response_message_def)
  then have ex: "\<exists>between.
            messages (run (sendMessage_then now' r) (steps evs (run submitted s)))
              = messages s @ userMessage now s # between @ [response_message now' r]"
    by (rule exI)
  have first: "SetMessages (userMessage now s)
           \<in> set (takeWhile (\<lambda>a. \<not> is_request a) submitted)"
    by (simp add: acts)
  have req: "filter is_request submitted = [Axios (query_request s)]"
    by (simp add: acts)
  have user: "m_type (userMessage now s) = User"
    and content: "m_content (userMessage now s) = inputMessage s"
    by (simp_all add: userMessage_def)
  have resp: "m_type (response_message now' r) = AI \<or> m_type (response_message now' r) = System"
    by (cases r) (simp_all add: response_message_def aiMessage_def query_error_message_def)
  from first req ex user content resp show ?thesis by (intro conjI)
qed

theorem sendMessage_user_entry_first_witness:
  "map m_type (messages (run (sendMessage_then 2 (Inr \<lparr>answer = lit ''It is a report.'', sources = None\<rparr>))
       (steps [] (run (send_onClick 1 ready_state) ready_state)))) = [User, AI] \<and>
   SetMessages (userMessage 1 ready_state)
     \<in> set (takeWhile (\<lambda>a. \<not> is_request a) (send_onClick 1 ready_state)) \<and>
   filter is_request (send_onClick 1 ready_state) = [Axios (query_request ready_state)] \<and>
   SetMessages (userMessage 1 ready_state)
     \<in> set (takeWhile (\<lambda>a. \<not> is_request a) (textarea_onKeyPress enter_key 1 ready_state)) \<and>
   filter is_request (textarea_onKeyPress enter_key 1 ready_state)
     = [Axios (query_request ready_state)]"
proof -
  have typed: "trim (inputMessage ready_state) \<noteq> []"
    by (simp add: ready_state_def init_def lit_def trim_def isWhiteSpace_def)
  have sel: "selectedDocuments ready_state \<noteq> []"
    by (simp add: ready_state_def init_def)
  have "\<not> textarea_disabled ready_state"
    by (simp add: textarea_disabled_def ready_state_def init_def)
  with typed have click: "\<not> send_disabled ready_state"
    by (simp add: send_disabled_def textarea_disabled_def)
  have button: "send_onClick 1 ready_state = send_onClick 1 ready_state \<and>
        \<not> send_disabled ready_state \<or>
      send_onClick 1 ready_state = textarea_onKeyPress enter_key 1 ready_state \<and>
        \<not> textarea_disabled ready_state \<and>
        e_key enter_key = lit ''Enter'' \<and> \<not> e_shiftKey enter_key"
    using click by simp
  have enter: "textarea_onKeyPress enter_key 1 ready_state = send_onClick 1 ready_state \<and>
        \<not> send_disabled ready_state \<or>
      textarea_onKeyPress enter_key 1 ready_state = textarea_onKeyPress enter_key 1 ready_state \<and>
        \<not> textarea_disabled ready_state \<and>
        e_key enter_key = lit ''Enter'' \<and> \<not> e_shiftKey enter_key"
    using \<open>\<not> textarea_disabled ready_state\<close> by (simp add: enter_key_def)
  note by_button = sendMessage_user_entry_first [OF typed sel button, of 2 "Inl network_error" "[]"]
  note by_enter = sendMessage_user_entry_first [OF typed sel enter, of 2 "Inl network_error" "[]"]
  note b1 = by_button [THEN conjunct1]
  note b2 = by_button [THEN conjunct2, THEN conjunct1]
  note e1 = by_enter [THEN conjunct1]
  note e2 = by_enter [THEN conjunct2, THEN conjunct1]
  have same: "send_onClick 1 ready_state = sendMessage 1 ready_state"
    using click by (simp add: send_onClick_def)
  have m: "map m_type (messages (run (sendMessage_then 2 (Inr \<lparr>answer = lit ''It is a report.'', sources = None\<rparr>))
       (steps [] (run (send_onClick 1 ready_state) ready_state)))) = [User, AI]"
    unfolding same
    by (simp add: ready_state_def init_def lit_def trim_def isWhiteSpace_def doc_d1_def
      aiMessage_def userMessage_def steps_Nil sendMessage_def
      sendMessage_then_def run_Cons run_Nil)
  from m b1 b2 e1 e2 show ?thesis by (intro conjI)
qed

section \<open>Uploading a batch\<close>

text \<open>
  C2 (amended). \<^verbatim>\<open>onDrop\<close> issues every upload request of the batch before it awaits
  any. It takes the success path only once every request has succeeded. When a request
  fails, the batch fails with the first failure to arrive, without waiting for the other
  requests to settle: exactly one system entry is appended, carrying the \<^verbatim>\<open>detail\<close> of
  that failure or, without one, its error message, and no document record is added, also
  not for the files whose requests succeeded.
\<close>

theorem onDrop_then_join:
  assumes "distinct (map fst settled)"
    and "\<forall>i\<in>set (map fst settled). i < length acceptedFiles"
  shows "run (onDrop acceptedFiles s) s
           = s\<lparr>isUploading := True,
                requests := requests s @ map (\<lambda>f. Post_upload f (userId s)) acceptedFiles\<rparr> \<and>
         (case first_failure settled of
            Some error \<Rightarrow>
              run (onDrop_then now acceptedFiles settled) s
                = s\<lparr>messages := messages s @ [upload_error_message now error],
                     isUploading := False\<rparr>
          | None \<Rightarrow>
              if all_settled (length acceptedFiles) settled
              then \<exists>newFiles. run (onDrop_then now acceptedFiles settled) s
                     = s\<lparr>uploadedDocuments := uploadedDocuments s @ newFiles,
                          messages := messages s @ [uploaded_message now acceptedFiles],
                          timers := timers s @ [2000],
                          isUploading := False\<rparr>
              else onDrop_then now acceptedFiles settled = []) \<and>
         m_type (upload_error_message now error) = System \<and>
         m_content (upload_error_message now error)
           = cross_mark @ lit '' Error uploading files: '' @
             (case detail error of
                Some d \<Rightarrow> if d = [] then message error else d
              | None \<Rightarrow> message error)"
proof -
  have issue: "run (onDrop acceptedFiles s) s
           = s\<lparr>isUploading := True,
                requests := requests s @ map (\<lambda>f. Post_upload f (userId s)) acceptedFiles\<rparr>"
    by (simp add: onDrop_def run_Cons run_requests)
  have settle: "(case first_failure settled of
            Some error \<Rightarrow>
              run (onDrop_then now acceptedFiles settled) s
                = s\<lparr>messages := messages s @ [upload_error_message now error],
                     isUploading := False\<rparr>
          | None \<Rightarrow>
              if all_settled (length acceptedFiles) settled
              then \<exists>newFiles. run (onDrop_then now acceptedFiles settled) s
                     = s\<lparr>uploadedDocuments := uploadedDocuments s @ newFiles,
                          messages := messages s @ [uploaded_message now acceptedFiles],
                          timers := timers s @ [2000],
                          isUploading := False\<rparr>
              else onDrop_then now acceptedFiles settled = [])"
  proof (cases "first_failure settled")
    case (Some e)
    with assms show ?thesis by (simp add: onDrop_then_failure run_Cons run_Nil)
  next
    case None
    show ?thesis
    proof (cases "all_settled (length acceptedFiles) settled")
      case True
      from onDrop_then_complete [OF None True, of now]
      obtain newFiles where "onDrop_then now acceptedFiles settled
           = [AppendUploadedDocuments newFiles,
              SetMessages (uploaded_message now acceptedFiles),
              SetTimeout_loadUserDocuments 2000,
              SetIsUploading False]" by blast
      then have "run (onDrop_then now acceptedFiles settled) s
                     = s\<lparr>uploadedDocuments := uploadedDocuments s @ newFiles,
                          messages := messages s @ [uploaded_message now acceptedFiles],
                          timers := timers s @ [2000],
                          isUploading := False\<rparr>"
        by (simp add: run_Cons run_Nil)
      then have "\<exists>newFiles. run (onDrop_then now acceptedFiles settled) s
                     = s\<lparr>uploadedDocuments := uploadedDocuments s @ newFiles,
                          messages := messages s @ [uploaded_message now acceptedFiles],
                          timers := timers s @ [2000],
                          isUploading := False\<rparr>"
        by (rule exI)
      with None True show ?thesis by simp
    next
      case False
      with None show ?thesis by (simp add: onDrop_then_pending)
    qed
  qed
  have sys: "m_type (upload_error_message now error) = System"
    by (simp add: upload_error_message_def)
  have content: "m_content (upload_error_message now error)
           = cross_mark @ lit '' Error uploading files: '' @
             (case detail error of
                Some d \<Rightarrow> if d = [] then message error else d
              | None \<Rightarrow> message error)"
    by (simp add: upload_error_message_def error_text_eq)
  from issue settle sys content show ?thesis by (intro conjI)
qed

text \<open>
  As first stated, the client waits for every request to settle. With two files, when the
  second request fails first, the error entry is appended while the first request is
  still pending.
\<close>

theorem onDrop_proceeds_early_counterexample:
  "\<not> all_settled (length [file_a, file_b])
       [(1, Inl network_error :: axios_error + upload_response)] \<and>
   onDrop_then 7 [file_a, file_b] [(1, Inl network_error)]
     = [SetMessages (upload_error_message 7 network_error), SetIsUploading False]"
  by (simp add: all_settled_def onDrop_then_def uploadPromise_def)

theorem onDrop_then_join_witness:
  "run (onDrop_then 7 [file_a, file_b] [(1, Inl network_error)]) (init (lit ''u''))
     = (init (lit ''u''))\<lparr>messages := [upload_error_message 7 network_error]\<rparr> \<and>
   onDrop_then 7 [file_a, file_b] [(1, Inr \<lparr>filename = Some (lit ''b.txt'')\<rparr>)] = []"
  using onDrop_then_join [of "[(1, Inl network_error)]" "[file_a, file_b]" "init (lit ''u'')" 7]
    onDrop_then_join [of "[(1, Inr \<lparr>filename = Some (lit ''b.txt'')\<rparr>)]" "[file_a, file_b]"
      "init (lit ''u'')" 7]
  by (simp add: all_settled_def init_def)

text \<open>
  C4. When every upload request of a batch succeeds, in whatever order, the client
  appends one document record per file, in the order of the files, each with status
  \<^verbatim>\<open>processing\<close> and with the \<^verbatim>\<open>filename\<close> of its upload response as identifier; it
  appends one system entry whose text contains the name of every file; and it schedules
  one refresh of the list, 2000 ms later.
\<close>

theorem onDrop_success:
  assumes "length responses = length acceptedFiles"
    and "distinct order" and "set order = {0..<length acceptedFiles}"
  shows "run (onDrop_then now acceptedFiles (map (\<lambda>i. (i, Inr (responses ! i))) order)) s
           = s\<lparr>uploadedDocuments :=
                  uploadedDocuments s @ map2 upload_record acceptedFiles responses,
                messages := messages s @ [uploaded_message now acceptedFiles],
                timers := timers s @ [2000],
                isUploading := False\<rparr> \<and>
         length (map2 upload_record acceptedFiles responses) = length acceptedFiles \<and>
         (\<forall>i<length acceptedFiles.
            d_status (map2 upload_record acceptedFiles responses ! i) = Some (lit ''processing'') \<and>
            d_id (map2 upload_record acceptedFiles responses ! i) = filename (responses ! i) \<and>
            d_name (map2 upload_record acceptedFiles responses ! i)
              = Some (f_name (acceptedFiles ! i))) \<and>
         m_type (uploaded_message now acceptedFiles) = System \<and>
         (\<forall>f\<in>set acceptedFiles. \<exists>before after.
            m_content (uploaded_message now acceptedFiles) = before @ f_name f @ after)"
proof -
  let ?n = "length acceptedFiles"
  let ?g = "\<lambda>i. upload_record (acceptedFiles ! i) (responses ! i)"
  let ?evs = "map (\<lambda>i. (i, Inr (?g i) :: axios_error + document)) order"
  have evs: "map (\<lambda>(i, r). (i, uploadPromise (acceptedFiles ! i) r))
               (map (\<lambda>i. (i, Inr (responses ! i))) order)
             = ?evs"
    by (simp add: uploadPromise_def)
  have "{j. j < length (replicate ?n (None :: document option)) \<and>
            replicate ?n (None :: document option) ! j = None} = {0..<?n}"
    by auto
  then have "set order = {j. j < length (replicate ?n (None :: document option)) \<and>
                       replicate ?n (None :: document option) ! j = None}"
    by (simp only: assms(3))
  note fulfilled = promise_all_fulfil [OF assms(2) this, of ?g]
  have "map (\<lambda>j. case replicate ?n (None :: document option) ! j of
                    Some v \<Rightarrow> v | None \<Rightarrow> ?g j) [0..<?n] = map ?g [0..<?n]"
    by (rule nth_equalityI) simp_all
  with fulfilled
  have "promise_all (replicate ?n None) ?evs = Some (Inr (map ?g [0..<?n]))"
    by simp
  then have "promise_all (replicate ?n None) ?evs
          = Some (Inr (map2 upload_record acceptedFiles responses))"
    using assms(1) by (simp add: map_nth_zip)
  then have acts: "onDrop_then now acceptedFiles (map (\<lambda>i. (i, Inr (responses ! i))) order)
      = [AppendUploadedDocuments (map2 upload_record acceptedFiles responses),
         SetMessages (uploaded_message now acceptedFiles),
         SetTimeout_loadUserDocuments 2000,
         SetIsUploading False]"
    unfolding onDrop_then_def evs by simp
  have st: "run (onDrop_then now acceptedFiles (map (\<lambda>i. (i, Inr (responses ! i))) order)) s
           = s\<lparr>uploadedDocuments :=
                  uploadedDocuments s @ map2 upload_record acceptedFiles responses,
                messages := messages s @ [uploaded_message now acceptedFiles],
                timers := timers s @ [2000],
                isUploading := False\<rparr>"
    by (simp add: acts run_Cons run_Nil)
  have len: "length (map2 upload_record acceptedFiles responses) = length acceptedFiles"
    using assms(1) by simp
  have recs: "\<forall>i<length acceptedFiles.
            d_status (map2 upload_record acceptedFiles responses ! i) = Some (lit ''processing'') \<and>
            d_id (map2 upload_record acceptedFiles responses ! i) = filename (responses ! i) \<and>
            d_name (map2 upload_record acceptedFiles responses ! i)
              = Some (f_name (acceptedFiles ! i))"
    using assms(1) by (simp add: upload_record_def)
  have sys: "m_type (uploaded_message now acceptedFiles) = System"
    by (simp add: uploaded_message_def)
  have names: "\<forall>f\<in>set acceptedFiles. \<exists>before after.
            m_content (uploaded_message now acceptedFiles) = before @ f_name f @ after"
  proof
    fix f assume "f \<in> set acceptedFiles"
    then have "f_name f \<in> set (map f_name acceptedFiles)" by simp
    from join_contains [OF this, of "lit '', ''"]
    obtain p q where pq: "join (lit '', '') (map f_name acceptedFiles) = p @ f_name f @ q"
      by blast
    have "m_content (uploaded_message now acceptedFiles)
        = (page_facing_up @ lit '' Uploaded '' @ show_nat (length acceptedFiles) @
            lit '' file(s): '' @ p) @ f_name f @ (q @ lit ''. Processing in background...'')"
      by (simp only: uploaded_message_def pq message.simps append_assoc)
    then show "\<exists>before after.
            m_content (uploaded_message now acceptedFiles) = before @ f_name f @ after"
      by blast
  qed
  from st len recs sys names show ?thesis by (intro conjI)
qed

theorem onDrop_success_witness:
  "uploadedDocuments (run (onDrop_then 7 [file_a, file_b]
       [(1, Inr \<lparr>filename = Some (lit ''b.txt'')\<rparr>), (0, Inr \<lparr>filename = Some (lit ''a.pdf'')\<rparr>)])
       (init (lit ''u'')))
     = [upload_record file_a \<lparr>filename = Some (lit ''a.pdf'')\<rparr>,
        upload_record file_b \<lparr>filename = Some (lit ''b.txt'')\<rparr>]"
  using onDrop_success [of "[\<lparr>filename = Some (lit ''a.pdf'')\<rparr>, \<lparr>filename = Some (lit ''b.txt'')\<rparr>]"
      "[file_a, file_b]" "[1, 0]" 7 "init (lit ''u'')"]
  by (simp add: init_def insert_commute atLeastLessThan_upt)

section \<open>Listing and deleting documents\<close>

text \<open>
  C6. A successful refresh replaces the document list by the list of the response; an
  error leaves the list as it is. In both cases the transcript, the selection and every
  other cell of the state are unchanged.
\<close>

theorem loadUserDocuments_overwrite:
  "run (loadUserDocuments_then (Inr response)) s
     = s\<lparr>uploadedDocuments := (case documents response of Some ds \<Rightarrow> ds | None \<Rightarrow> [])\<rparr> \<and>
   uploadedDocuments (run (loadUserDocuments_then (Inr \<lparr>documents = Some ds\<rparr>)) s) = ds \<and>
   run (loadUserDocuments_then (Inl error)) s = s \<and>
   messages (run (loadUserDocuments_then r) s) = messages s \<and>
   selectedDocuments (run (loadUserDocuments_then r) s) = selectedDocuments s \<and>
   run (loadUserDocuments s) s = s\<lparr>requests := requests s @ [Get_documents (userId s)]\<rparr>"
  by (cases r) (simp_all add: loadUserDocuments_then_def loadUserDocuments_def run_Cons run_Nil)

theorem loadUserDocuments_overwrite_witness:
  "uploadedDocuments (run (loadUserDocuments_then (Inr \<lparr>documents = Some [doc_d1]\<rparr>))
       ((init (lit ''user_1''))\<lparr>uploadedDocuments :=
           [upload_record file_a \<lparr>filename = Some (lit ''a.pdf'')\<rparr>]\<rparr>))
     = [doc_d1] \<and>
   run (loadUserDocuments_then (Inl network_error)) ready_state = ready_state"
  using loadUserDocuments_overwrite [of "\<lparr>documents = Some [doc_d1]\<rparr>"
      "(init (lit ''user_1''))\<lparr>uploadedDocuments :=
           [upload_record file_a \<lparr>filename = Some (lit ''a.pdf'')\<rparr>]\<rparr>" "[doc_d1]"]
    loadUserDocuments_overwrite [of _ ready_state _ network_error]
  by simp

text \<open>
  C5. \<^verbatim>\<open>deleteDocument\<close> itself only issues the deletion request: until the outcome
  arrives, the document list, the selection and the transcript are as they were. A
  successful outcome empties the document list and the selection and appends the one
  confirming system entry, in one step; a failed outcome changes neither the list nor the
  selection and appends one system entry with the error. The Clear All button is disabled
  exactly when the document list is empty, and then a click on it does nothing.
\<close>

theorem deleteDocument_atomic:
  "run (deleteDocument_then now (Inr ())) s
     = s\<lparr>uploadedDocuments := [], selectedDocuments := [],
          messages := messages s @ [deleted_message now]\<rparr> \<and>
   m_type (deleted_message now) = System \<and>
   run (deleteDocument_then now (Inl error)) s
     = s\<lparr>messages := messages s @ [delete_error_message now error]\<rparr> \<and>
   m_type (delete_error_message now error) = System \<and>
   m_content (delete_error_message now error)
     = cross_mark @ lit '' Error deleting documents: '' @
       (case detail error of
          Some d \<Rightarrow> if d = [] then message error else d
        | None \<Rightarrow> message error) \<and>
   (clearAll_disabled s \<longleftrightarrow> uploadedDocuments s = []) \<and>
   run (deleteDocument s) s = s\<lparr>requests := requests s @ [Delete_documents (userId s)]\<rparr> \<and>
   run (deleteDocument_then now (Inr ())) (run (deleteDocument s) s)
     = s\<lparr>uploadedDocuments := [], selectedDocuments := [],
          messages := messages s @ [deleted_message now],
          requests := requests s @ [Delete_documents (userId s)]\<rparr> \<and>
   run (deleteDocument_then now (Inl error)) (run (deleteDocument s) s)
     = s\<lparr>messages := messages s @ [delete_error_message now error],
          requests := requests s @ [Delete_documents (userId s)]\<rparr> \<and>
   uploadedDocuments (run (deleteDocument_then now (Inl error)) (run (deleteDocument s) s))
     = uploadedDocuments s \<and>
   selectedDocuments (run (deleteDocument_then now (Inl error)) (run (deleteDocument s) s))
     = selectedDocuments s \<and>
   m_content (deleted_message now)
     = [0xD83D, 0xDDD1, 0xFE0F] @ lit '' All documents deleted successfully.'' \<and>
   m_sources (deleted_message now) = None \<and>
   clearAll_onClick s = (if uploadedDocuments s = [] then [] else deleteDocument s)"
  by (simp add: deleteDocument_then_def deleteDocument_def run_Cons run_Nil deleted_message_def
      delete_error_message_def clearAll_disabled_def clearAll_onClick_def error_text_def
      or_else_def truthy_def wastebasket_def split: option.splits)

theorem deleteDocument_atomic_witness:
  "uploadedDocuments (run (deleteDocument_then 3 (Inr ())) ready_state) = [] \<and>
   selectedDocuments (run (deleteDocument_then 3 (Inr ())) ready_state) = [] \<and>
   messages (run (deleteDocument_then 3 (Inr ())) ready_state) = [deleted_message 3] \<and>
   run (deleteDocument_then 3 (Inl network_error)) ready_state
     = ready_state\<lparr>messages := [delete_error_message 3 network_error]\<rparr> \<and>
   \<not> clearAll_disabled ready_state \<and> clearAll_disabled (init (lit ''user_1'')) \<and>
   run (clearAll_onClick ready_state) ready_state
     = ready_state\<lparr>requests := [Delete_documents (lit ''user_1'')]\<rparr> \<and>
   run (deleteDocument_then 3 (Inl network_error))
       (run (clearAll_onClick ready_state) ready_state)
     = ready_state\<lparr>messages := [delete_error_message 3 network_error],
          requests := [Delete_documents (lit ''user_1'')]\<rparr> \<and>
   clearAll_onClick (init (lit ''user_1'')) = []"
proof -
  note ready = deleteDocument_atomic [of 3 ready_state network_error]
  note fresh = deleteDocument_atomic [of 3 "init (lit ''user_1'')" network_error]
  have listed: "uploadedDocuments ready_state \<noteq> []"
    and none: "uploadedDocuments (init (lit ''user_1'')) = []"
    and fields: "messages ready_state = []" "requests ready_state = []"
      "userId ready_state = lit ''user_1''"
    by (simp_all add: ready_state_def init_def)
  from ready have "clearAll_onClick ready_state
      = (if uploadedDocuments ready_state = [] then [] else deleteDocument ready_state)"
    by (elim conjE)
  with listed have click: "clearAll_onClick ready_state = deleteDocument ready_state"
    by simp
  from fresh have "clearAll_onClick (init (lit ''user_1''))
      = (if uploadedDocuments (init (lit ''user_1'')) = [] then []
         else deleteDocument (init (lit ''user_1'')))"
    by (elim conjE)
  with none have w9: "clearAll_onClick (init (lit ''user_1'')) = []"
    by simp
  from fresh have "clearAll_disabled (init (lit ''user_1''))
      \<longleftrightarrow> uploadedDocuments (init (lit ''user_1'')) = []"
    by (elim conjE)
  with none have w6: "clearAll_disabled (init (lit ''user_1''))"
    by simp
  from ready have "clearAll_disabled ready_state \<longleftrightarrow> uploadedDocuments ready_state = []"
    by (elim conjE)
  with listed have w5: "\<not> clearAll_disabled ready_state"
    by simp
  from ready have "run (deleteDocument ready_state) ready_state
      = ready_state\<lparr>requests := requests ready_state @ [Delete_documents (userId ready_state)]\<rparr>"
    by (elim conjE)
  then have w7: "run (clearAll_onClick ready_state) ready_state
     = ready_state\<lparr>requests := [Delete_documents (lit ''user_1'')]\<rparr>"
    by (simp add: click fields)
  from ready have "run (deleteDocument_then 3 (Inl network_error))
        (run (deleteDocument ready_state) ready_state)
      = ready_state\<lparr>messages := messages ready_state @ [delete_error_message 3 network_error],
          requests := requests ready_state @ [Delete_documents (userId ready_state)]\<rparr>"
    by (elim conjE)
  then have w8: "run (deleteDocument_then 3 (Inl network_error))
       (run (clearAll_onClick ready_state) ready_state)
     = ready_state\<lparr>messages := [delete_error_message 3 network_error],
          requests := [Delete_documents (lit ''user_1'')]\<rparr>"
    by (simp add: click fields)
  from ready have "run (deleteDocument_then 3 (Inl network_error)) ready_state
      = ready_state\<lparr>messages := messages ready_state @ [delete_error_message 3 network_error]\<rparr>"
    by (elim conjE)
  then have w4: "run (deleteDocument_then 3 (Inl network_error)) ready_state
     = ready_state\<lparr>messages := [delete_error_message 3 network_error]\<rparr>"
    by (simp add: fields)
  from ready have ok: "run (deleteDocument_then 3 (Inr ())) ready_state
      = ready_state\<lparr>uploadedDocuments := [], selectedDocuments := [],
          messages := messages ready_state @ [deleted_message 3]\<rparr>"
    by (elim conjE)
  have w1: "uploadedDocuments (run (deleteDocument_then 3 (Inr ())) ready_state) = []"
    and w2: "selectedDocuments (run (deleteDocument_then 3 (Inr ())) ready_state) = []"
    and w3: "messages (run (deleteDocument_then 3 (Inr ())) ready_state) = [deleted_message 3]"
    by (simp_all add: ok fields)
  from w1 w2 w3 w4 w5 w6 w7 w8 w9 show ?thesis by (intro conjI)
qed

section \<open>The transcript\<close>

text \<open>
  C9. Every event of the component leaves the transcript as it is or extends it at the
  end: the entries it had stay in place, unchanged, so the transcript lists its entries
  in the order in which they were appended.
\<close>

theorem transcript_append_only:
  "messages (step ev s) = messages s @ appended (handler ev s) \<and>
   (\<exists>new. messages (steps evs s) = messages s @ new) \<and>
   take (length (messages s)) (messages (steps evs s)) = messages s"
proof -
  obtain new where "messages (steps evs s) = messages s @ new"
    using messages_steps by blast
  then show ?thesis by (auto simp: messages_step)
qed

theorem transcript_append_only_witness:
  "messages (steps [SendMessage 1, SendMessage_then 2 (Inl \<lparr>detail = None, message = lit ''Network Error''\<rparr>)] ready_state)
     = [userMessage 1 ready_state,
        query_error_message 2 \<lparr>detail = None, message = lit ''Network Error''\<rparr>]"
  using transcript_append_only [of "SendMessage 1" ready_state "[]"]
    transcript_append_only [of "SendMessage_then 2 (Inl \<lparr>detail = None, message = lit ''Network Error''\<rparr>)"
      "step (SendMessage 1) ready_state" "[]"]
  by (simp add: steps_Cons steps_Nil sendMessage_def sendMessage_then_def ready_state_def
      init_def lit_def trim_def isWhiteSpace_def)

section \<open>The selection\<close>

text \<open>
  C3 (amended). If every selected identifier is listed, it still is after a click on the
  card of a listed document, select-all, deselect-all, an upload, a deletion and a
  question. A refresh replaces the document list and leaves the selection as it is, so
  it keeps every selected identifier listed only when the returned list still has them
  all. A successful deletion empties the selection and the list, and a fresh component
  has nothing selected.
\<close>

theorem selection_listed_step:
  "(selection_listed s \<and> selection_safe ev s \<longrightarrow> selection_listed (step ev s)) \<and>
   selectedDocuments (step (LoadUserDocuments_then r) s) = selectedDocuments s \<and>
   selectedDocuments (step (DeleteDocument_then now (Inr ())) s) = [] \<and>
   uploadedDocuments (step (DeleteDocument_then now (Inr ())) s) = [] \<and>
   selection_listed (init uid)"
proof -
  have "selectedDocuments (step (LoadUserDocuments_then r) s) = selectedDocuments s"
    by (cases r) (simp_all add: step_def loadUserDocuments_then_def run_Cons run_Nil)
  moreover have "selectedDocuments (step (DeleteDocument_then now (Inr ())) s) = []"
    and "uploadedDocuments (step (DeleteDocument_then now (Inr ())) s) = []"
    by (simp_all add: step_def deleteDocument_then_def run_Cons run_Nil)
  moreover have "selection_listed (init uid)"
    by (simp add: selection_listed_def init_def)
  ultimately show ?thesis using step_keeps_selection_listed by blast
qed

text \<open>
  As first stated, the refresh is among the operations that keep the selection listed.
  After an upload the new card carries the identifier of the upload response; once it is
  selected, a refresh that lists the document under the identifier of the backend leaves
  the selection naming an identifier that is no longer listed.
\<close>

theorem refresh_stale_selection_counterexample:
  "selection_listed (steps stale_selection_events (init (lit ''user_1''))) \<and>
   \<not> selection_listed
       (step (LoadUserDocuments_then (Inr \<lparr>documents = Some [doc_d1]\<rparr>))
          (steps stale_selection_events (init (lit ''user_1''))))"
  by (simp add: stale_selection_events_def steps_Cons steps_Nil step_def run_Cons run_Nil
      init_def onDrop_def onDrop_then_def uploadPromise_def upload_record_def file_a_def
      card_onClick_def docId_of_def or_else_def truthy_def toggleDocumentSelection_def
      toggle_def loadUserDocuments_def loadUserDocuments_then_def selection_listed_def
      allDocIds_def doc_d1_def lit_def)

theorem selection_listed_step_witness:
  "selection_listed (step SelectAllDocuments ready_state) \<and>
   selection_listed (step (Card_onClick doc_d1) ready_state) \<and>
   selection_listed (step (LoadUserDocuments_then (Inr \<lparr>documents = Some [doc_d1, doc_d1]\<rparr>))
      ready_state)"
proof -
  have ok: "selection_listed ready_state"
    by (simp add: selection_listed_def ready_state_def init_def allDocIds_def docId_of_def
        or_else_def truthy_def doc_d1_def lit_def)
  have "selection_safe SelectAllDocuments ready_state" by simp
  moreover have "selection_safe (Card_onClick doc_d1) ready_state"
    by (simp add: ready_state_def init_def)
  moreover have "selection_safe
      (LoadUserDocuments_then (Inr \<lparr>documents = Some [doc_d1, doc_d1]\<rparr>)) ready_state"
    by (simp add: ready_state_def init_def allDocIds_def docId_of_def
        or_else_def truthy_def doc_d1_def lit_def)
  ultimately show ?thesis
    using ok selection_listed_step [of ready_state SelectAllDocuments]
      selection_listed_step [of ready_state "Card_onClick doc_d1"]
      selection_listed_step [of ready_state
        "LoadUserDocuments_then (Inr \<lparr>documents = Some [doc_d1, doc_d1]\<rparr>)"]
    by simp
qed

text \<open>
  C10. Toggling an identifier twice gives back the same selection as a set. One toggle
  appends the identifier when it is absent, and removes every occurrence of it when it is
  present.
\<close>

theorem toggleDocumentSelection_involution:
  "set (selectedDocuments
          (run (toggleDocumentSelection docId) (run (toggleDocumentSelection docId) s)))
     = set (selectedDocuments s) \<and>
   (docId \<notin> set (selectedDocuments s) \<longrightarrow>
      selectedDocuments (run (toggleDocumentSelection docId) s)
        = selectedDocuments s @ [docId]) \<and>
   (docId \<in> set (selectedDocuments s) \<longrightarrow>
      selectedDocuments (run (toggleDocumentSelection docId) s)
        = filter (\<lambda>i. i \<noteq> docId) (selectedDocuments s) \<and>
      docId \<notin> set (selectedDocuments (run (toggleDocumentSelection docId) s)))"
  by (simp add: toggleDocumentSelection_def run_Cons run_Nil set_toggle_twice
      toggle_absent toggle_present)

theorem toggleDocumentSelection_involution_witness:
  "selectedDocuments (run (toggleDocumentSelection (lit ''b'')) (init (lit ''u''))) = [lit ''b'']
   \<and> selectedDocuments (run (toggleDocumentSelection (lit ''b''))
        ((init (lit ''u''))\<lparr>selectedDocuments := [lit ''b'', lit ''c'', lit ''b'']\<rparr>))
       = [lit ''c'']"
  using toggleDocumentSelection_involution [of "lit ''b''" "init (lit ''u'')"]
    toggleDocumentSelection_involution [of "lit ''b''"
      "(init (lit ''u''))\<lparr>selectedDocuments := [lit ''b'', lit ''c'', lit ''b'']\<rparr>"]
  by (simp add: init_def lit_def)

end
